theory Spec2Isabelle
  imports Complex_Main
begin

section \<open>Data model of \<open>GeneratedLatticeImage.__init__\<close>\<close>

text \<open>
  The constructor of \<open>GeneratedLatticeImage\<close> (\<open>lattice_generation.py\<close>, lines 23 to 122)
  is the whole synthesis. Its arguments are the fields of \<open>params\<close>; Python integers are
  \<open>int\<close>, Python floats are \<open>real\<close> (exact arithmetic: rounding of float64 is not
  modelled, the special values produced by a division by zero are, see \<open>float64\<close>).
  Memory is unbounded: numpy's \<open>MemoryError\<close> and its limits on array sizes are not
  modelled.

  The code is read as Python 3 (\<open>M/2\<close> is true division). Line 100, the Poisson draw, is
  indented with one tab where its neighbours have eight spaces; Python 3 rejects such a
  file with \<open>TabError\<close> when it compiles it. The model reads the line at the level of its
  neighbours, as part of the constructor's body.
\<close>

record params =
  N :: int
  M :: int
  N_atom :: int
  N_photon :: int
  CCD_resolution :: int
  lattice_origin :: "int \<times> int"
  std :: real
  N_backg :: int
  lam_backg :: real

text \<open>
  The code draws its random numbers from numpy's global generator. The model makes the
  generator explicit: \<open>request\<close> is a call of the sampler as the code issues it, and
  \<open>draws\<close> holds the values the sampler answers with.
  \<^item> \<open>Choice n size replace\<close> is \<open>np.random.choice(np.arange(n), size, replace=replace)\<close>;
  \<^item> \<open>Multivariate_normal mean s size\<close> is
    \<open>np.random.multivariate_normal(mean, [[s, 0], [0, s]], size)\<close>;
  \<^item> \<open>Poisson lam\<close> is \<open>np.random.poisson(lam)\<close>.
  A Gaussian sample is its mean plus a zero-mean deviate; \<open>jitter d i k\<close> is the deviate of
  the \<open>k\<close>-th photon of the \<open>i\<close>-th atom.
\<close>

datatype request =
    Choice int int bool
  | Multivariate_normal "real \<times> real" real int
  | Poisson real

record draws =
  atom_location :: "int list"
  jitter :: "nat \<Rightarrow> nat \<Rightarrow> real \<times> real"
  dark_count_tot :: nat
  dark_count_location_x :: "int list"
  dark_count_location_y :: "int list"

text \<open>The exceptions numpy raises on the paths of the constructor.\<close>

datatype error = ValueError | IndexError

text \<open>
  A cell of the rescaled pixel grid. numpy's float64 division by zero does not raise: it
  yields an infinity or NaN (with a warning), which then propagates.
\<close>

datatype float64 = Finite real | PosInf | NegInf | NaN

record image =
  x_loc :: "int list"
  y_loc :: "int list"
  actual_lattice :: "real list list"
  pixel_grid :: "float64 list list"

section \<open>numpy primitives\<close>

definition zeros :: "nat \<Rightarrow> nat \<Rightarrow> real list list" where
  "zeros r c = replicate r (replicate c 0)"

text \<open>
  Indexing an axis of length \<open>n\<close> with \<open>i\<close>: a negative index counts from the end, an
  index outside \<open>[-n, n)\<close> raises \<open>IndexError\<close>.
\<close>

definition np_index :: "nat \<Rightarrow> int \<Rightarrow> error + nat" where
  "np_index n i =
     (if 0 \<le> i \<and> i < int n then Inr (nat i)
      else if - int n \<le> i \<and> i < 0 then Inr (nat (i + int n))
      else Inl IndexError)"

text \<open>\<open>g[r, c] = f(g[r, c])\<close> on a two-dimensional array.\<close>

definition modify_item :: "(real \<Rightarrow> real) \<Rightarrow> real list list \<Rightarrow> int \<Rightarrow> int \<Rightarrow> error + real list list" where
  "modify_item f g r c =
     (case np_index (length g) r of
        Inl e \<Rightarrow> Inl e
      | Inr i \<Rightarrow>
          (case np_index (length (g ! i)) c of
             Inl e \<Rightarrow> Inl e
           | Inr j \<Rightarrow> Inr (g[i := (g ! i)[j := f (g ! i ! j)]])))"

text \<open>
  \<open>np.unravel_index(idx, (n, n))\<close>: the pair of component arrays; an index outside
  \<open>[0, n*n)\<close> raises.
\<close>

definition unravel_index :: "int list \<Rightarrow> int \<Rightarrow> error + int list \<times> int list" where
  "unravel_index idx n =
     (if list_all (\<lambda>i. 0 \<le> i \<and> i < n * n) idx
      then Inr (map (\<lambda>i. i div n) idx, map (\<lambda>i. i mod n) idx)
      else Inl ValueError)"

text \<open>\<open>np.rint\<close> followed by \<open>astype(int)\<close>: the nearest integer, a tie going to the even one.\<close>

definition rint :: "real \<Rightarrow> int" where
  "rint x =
     (let f = \<lfloor>x\<rfloor> in
      if x - of_int f < 1 / 2 then f
      else if 1 / 2 < x - of_int f then f + 1
      else if even f then f else f + 1)"

text \<open>float64 arithmetic on the values the rescale meets.\<close>

definition np_divide :: "real \<Rightarrow> real \<Rightarrow> float64" where
  "np_divide a b =
     (if b = 0 then (if 0 < a then PosInf else if a < 0 then NegInf else NaN)
      else Finite (a / b))"

fun np_multiply :: "real \<Rightarrow> float64 \<Rightarrow> float64" where
  "np_multiply c (Finite s) = Finite (c * s)"
| "np_multiply c PosInf = (if 0 < c then PosInf else if c < 0 then NegInf else NaN)"
| "np_multiply c NegInf = (if 0 < c then NegInf else if c < 0 then PosInf else NaN)"
| "np_multiply c NaN = NaN"

fun np_add :: "float64 \<Rightarrow> real \<Rightarrow> float64" where
  "np_add (Finite v) b = Finite (v + b)"
| "np_add PosInf b = PosInf"
| "np_add NegInf b = NegInf"
| "np_add NaN b = NaN"

section \<open>The steps of the constructor\<close>

text \<open>Lines 72 and 73: \<open>for x,y in zip(...): actual_lattice[y,x] = 1\<close>.\<close>

fun mark_sites :: "real list list \<Rightarrow> (int \<times> int) list \<Rightarrow> error + real list list" where
  "mark_sites g [] = Inr g"
| "mark_sites g ((x, y) # rest) =
     (case modify_item (\<lambda>_. 1) g y x of
        Inl e \<Rightarrow> Inl e
      | Inr g' \<Rightarrow> mark_sites g' rest)"

text \<open>
  Lines 77 to 81: the centre of the site with unravelled components \<open>(a, b)\<close>, in lattice
  pixels: \<open>x_index = a*M + M/2\<close> and \<open>y_index = N*M - (b*M + M/2)\<close>.
\<close>

definition x_index :: "params \<Rightarrow> int \<Rightarrow> real" where
  "x_index p a = of_int a * of_int (M p) + of_int (M p) / 2"

definition y_index :: "params \<Rightarrow> int \<Rightarrow> real" where
  "y_index p b = of_int (N p * M p) - (of_int b * of_int (M p) + of_int (M p) / 2)"

text \<open>
  Lines 89 to 92 for atom \<open>i\<close> with centre \<open>c\<close>: \<open>N_photon\<close> samples, rounded, then shifted
  by \<open>lattice_origin\<close>.
\<close>

definition atom_photons :: "params \<Rightarrow> draws \<Rightarrow> nat \<Rightarrow> real \<times> real \<Rightarrow> int list \<times> int list" where
  "atom_photons p d i c =
     (let s = map (\<lambda>k. (fst c + fst (jitter d i k), snd c + snd (jitter d i k)))
                [0..<nat (N_photon p)]
      in (map (\<lambda>q. rint (fst q) + fst (lattice_origin p)) s,
          map (\<lambda>q. rint (snd q) + snd (lattice_origin p)) s))"

text \<open>
  Lines 88 to 94: the loop over \<open>range(N_atom)\<close>, carrying the sampler calls made so far
  and the two coordinate arrays. \<open>multivariate_normal\<close> raises on a negative size.
\<close>

fun photon_loop ::
  "params \<Rightarrow> draws \<Rightarrow> real list \<Rightarrow> real list \<Rightarrow> nat list \<Rightarrow>
   request list \<times> int list \<times> int list \<Rightarrow> request list \<times> (error + int list \<times> int list)" where
  "photon_loop p d xs ys [] (calls, xl, yl) = (calls, Inr (xl, yl))"
| "photon_loop p d xs ys (i # rest) (calls, xl, yl) =
     (if length xs \<le> i \<or> length ys \<le> i then (calls, Inl IndexError)
      else
        let calls' = calls @ [Multivariate_normal (xs ! i, ys ! i) (std p) (N_photon p)] in
        if N_photon p < 0 then (calls', Inl ValueError)
        else
          let (xx, yy) = atom_photons p d i (xs ! i, ys ! i)
          in photon_loop p d xs ys rest (calls', xl @ xx, yl @ yy))"

text \<open>Lines 109 to 112: the rasterization loop with its guard.\<close>

fun rasterize :: "int \<Rightarrow> real list list \<Rightarrow> (int \<times> int) list \<Rightarrow> error + real list list" where
  "rasterize ccd g [] = Inr g"
| "rasterize ccd g ((x, y) # rest) =
     (if x < ccd \<and> y < ccd \<and> x > 0 \<and> y > 0
      then (case modify_item (\<lambda>v. v + 1) g y x of
              Inl e \<Rightarrow> Inl e
            | Inr g' \<Rightarrow> rasterize ccd g' rest)
      else rasterize ccd g rest)"

text \<open>
  Lines 115 and 116: \<open>pixel_grid *= 5000/pixel_grid.max()\<close>, then \<open>pixel_grid += 600\<close>.
  \<open>max\<close> of an array without elements raises; a maximum of 0 does not.
\<close>

definition rescale :: "real list list \<Rightarrow> error + float64 list list" where
  "rescale g =
     (if concat g = [] then Inl ValueError
      else
        let s = np_divide 5000 (Max (set (concat g)))
        in Inr (map (map (\<lambda>c. np_add (np_multiply c s) 600)) g))"

text \<open>
  \<open>np.random.poisson(lam)\<close> raises \<open>ValueError\<close> for a negative mean and for a mean
  above its limit, \<open>iinfo(long).max - sqrt(iinfo(long).max) * 10\<close>; this is the value of
  that float64 where a C long has 64 bits.
\<close>

definition poisson_lam_max :: real where
  "poisson_lam_max = 9223372006484770816"

section \<open>The constructor\<close>

text \<open>
  The result is the list of sampler calls made, in order, and either the exception raised
  or the four stored outputs. The constructor raises nothing itself; an error branch is
  the numpy call that raises, in the order of the code: \<open>choice\<close> without replacement of
  more values than the population has, or of a negative number of values (line 66);
  \<open>zeros\<close> with a negative dimension (lines 68 and 83); \<open>unravel_index\<close> and the
  indexed assignments (lines 69 and 73); \<open>multivariate_normal\<close> with a negative size
  (line 89); \<open>poisson\<close> with a mean outside its range (line 100); \<open>choice\<close> from an empty
  population (lines 101 and 102); \<open>max\<close> of an empty array (line 115).
\<close>

definition synthesize :: "params \<Rightarrow> draws \<Rightarrow> request list \<times> (error + image)" where
  "synthesize p d =
     (let calls1 = [Choice (N p * N p) (N_atom p) False] in
      if N p * N p < N_atom p \<or> N_atom p < 0 then (calls1, Inl ValueError)
      else if N p < 0 then (calls1, Inl ValueError)
      else
        case unravel_index (atom_location d) (N p) of
          Inl e \<Rightarrow> (calls1, Inl e)
        | Inr (ix, iy) \<Rightarrow>
        case mark_sites (zeros (nat (N p)) (nat (N p))) (zip ix iy) of
          Inl e \<Rightarrow> (calls1, Inl e)
        | Inr lattice \<Rightarrow>
        if CCD_resolution p < 0 then (calls1, Inl ValueError)
        else
          case photon_loop p d (map (x_index p) ix) (map (y_index p) iy)
                 [0..<nat (N_atom p)] (calls1, [], []) of
            (calls2, Inl e) \<Rightarrow> (calls2, Inl e)
          | (calls2, Inr (xl, yl)) \<Rightarrow>
          let calls3 = calls2 @ [Poisson (lam_backg p * of_int (N_backg p))] in
          if poisson_lam_max < lam_backg p * of_int (N_backg p) \<or>
             lam_backg p * of_int (N_backg p) < 0
          then (calls3, Inl ValueError)
          else
            let calls4 = calls3 @ [Choice (CCD_resolution p) (int (dark_count_tot d)) True] in
            if CCD_resolution p = 0 \<and> dark_count_tot d \<noteq> 0 then (calls4, Inl ValueError)
            else
              let calls5 = calls4 @ [Choice (CCD_resolution p) (int (dark_count_tot d)) True];
                  xs = xl @ dark_count_location_x d;
                  ys = yl @ dark_count_location_y d
              in
                case rasterize (CCD_resolution p)
                       (zeros (nat (CCD_resolution p)) (nat (CCD_resolution p))) (zip xs ys) of
                  Inl e \<Rightarrow> (calls5, Inl e)
                | Inr counts \<Rightarrow>
                case rescale counts of
                  Inl e \<Rightarrow> (calls5, Inl e)
                | Inr grid \<Rightarrow>
                    (calls5, Inr \<lparr>x_loc = xs, y_loc = ys,
                                  actual_lattice = lattice, pixel_grid = grid\<rparr>))"

text \<open>
  What numpy guarantees about the answers of the sampler: \<open>N_atom\<close> distinct sites out of
  \<open>N*N\<close>, and \<open>dark_count_tot\<close> pixels per axis out of \<open>CCD_resolution\<close>.
\<close>

definition valid_draws :: "params \<Rightarrow> draws \<Rightarrow> bool" where
  "valid_draws p d \<longleftrightarrow>
     length (atom_location d) = nat (N_atom p) \<and>
     distinct (atom_location d) \<and>
     list_all (\<lambda>i. 0 \<le> i \<and> i < N p * N p) (atom_location d) \<and>
     length (dark_count_location_x d) = dark_count_tot d \<and>
     length (dark_count_location_y d) = dark_count_tot d \<and>
     list_all (\<lambda>x. 0 \<le> x \<and> x < CCD_resolution p) (dark_count_location_x d) \<and>
     list_all (\<lambda>y. 0 \<le> y \<and> y < CCD_resolution p) (dark_count_location_y d)"

section \<open>Auxiliary notions for the statements\<close>

text \<open>
  None of the following is code of the repository: these are the notions the statements
  about the constructor are written with.

  A square array of side \<open>n\<close>, the update of one cell without numpy's index resolution,
  and the array whose cell \<open>[r][c]\<close> is \<open>f r c\<close>.
\<close>

definition is_grid :: "nat \<Rightarrow> 'a list list \<Rightarrow> bool" where
  "is_grid n g \<longleftrightarrow> length g = n \<and> list_all (\<lambda>row. length row = n) g"

definition update_cell :: "(real \<Rightarrow> real) \<Rightarrow> real list list \<Rightarrow> nat \<Rightarrow> nat \<Rightarrow> real list list" where
  "update_cell f g r c = g[r := (g ! r)[c := f (g ! r ! c)]]"

definition tabulate :: "nat \<Rightarrow> (nat \<Rightarrow> nat \<Rightarrow> 'a) \<Rightarrow> 'a list list" where
  "tabulate n f = map (\<lambda>r. map (f r) [0..<n]) [0..<n]"

text \<open>
  The closed forms of the two grids: the counts of the events strictly inside the frame,
  and the occupancy of the sites \<open>(a, b)\<close>, stored at \<open>[b][a]\<close>.
\<close>

definition counts_of :: "nat \<Rightarrow> (int \<times> int) list \<Rightarrow> real list list" where
  "counts_of n evs =
     tabulate n (\<lambda>r c. if 0 < r \<and> 0 < c then real (count_list evs (int c, int r)) else 0)"

definition lattice_of :: "nat \<Rightarrow> (int \<times> int) list \<Rightarrow> real list list" where
  "lattice_of n ss = tabulate n (\<lambda>r c. if (int c, int r) \<in> set ss then 1 else 0)"

text \<open>The parameters on which no numpy call of the constructor raises.\<close>

definition accepted :: "params \<Rightarrow> bool" where
  "accepted p \<longleftrightarrow>
     0 \<le> N p \<and> 0 \<le> N_atom p \<and> N_atom p \<le> N p * N p \<and> 0 < CCD_resolution p \<and>
     (0 < N_atom p \<longrightarrow> 0 \<le> N_photon p) \<and>
     0 \<le> lam_backg p * of_int (N_backg p) \<and>
     lam_backg p * of_int (N_backg p) \<le> poisson_lam_max"

text \<open>
  The closed forms of a run: the unravelled sites, the centre of a site, the stored
  coordinates of the photons of atom \<open>i\<close>, the requests to the sampler, the rescaled grid
  and the list of all events.
\<close>

definition sites :: "params \<Rightarrow> draws \<Rightarrow> (int \<times> int) list" where
  "sites p d = map (\<lambda>i. (i div N p, i mod N p)) (atom_location d)"

definition centre :: "params \<Rightarrow> int \<Rightarrow> real \<times> real" where
  "centre p s = (x_index p (s div N p), y_index p (s mod N p))"

definition signal :: "params \<Rightarrow> draws \<Rightarrow> nat \<Rightarrow> int list \<times> int list" where
  "signal p d i = atom_photons p d i (centre p (atom_location d ! i))"

definition signal_x :: "params \<Rightarrow> draws \<Rightarrow> int list" where
  "signal_x p d = concat (map (\<lambda>i. fst (signal p d i)) [0..<nat (N_atom p)])"

definition signal_y :: "params \<Rightarrow> draws \<Rightarrow> int list" where
  "signal_y p d = concat (map (\<lambda>i. snd (signal p d i)) [0..<nat (N_atom p)])"

definition photon_calls :: "params \<Rightarrow> draws \<Rightarrow> request list" where
  "photon_calls p d =
     map (\<lambda>i. Multivariate_normal (centre p (atom_location d ! i)) (std p) (N_photon p))
       [0..<nat (N_atom p)]"

definition dark_calls :: "params \<Rightarrow> draws \<Rightarrow> request list" where
  "dark_calls p d =
     [Poisson (lam_backg p * of_int (N_backg p)),
      Choice (CCD_resolution p) (int (dark_count_tot d)) True,
      Choice (CCD_resolution p) (int (dark_count_tot d)) True]"

definition scaled :: "real list list \<Rightarrow> float64 list list" where
  "scaled g = map (map (\<lambda>c. np_add (np_multiply c (np_divide 5000 (Max (set (concat g))))) 600)) g"

definition events :: "params \<Rightarrow> draws \<Rightarrow> (int \<times> int) list" where
  "events p d = zip (signal_x p d @ dark_count_location_x d) (signal_y p d @ dark_count_location_y d)"

text \<open>
  A run with two atoms of two photons each and two dark counts, on a 2 by 2 lattice of
  3 pixels per site in a frame of 8 by 8 pixels.
\<close>

definition ex_params :: params where
  "ex_params = \<lparr>N = 2, M = 3, N_atom = 2, N_photon = 2, CCD_resolution = 8,
     lattice_origin = (1, 1), std = 1, N_backg = 1, lam_backg = 2\<rparr>"

definition ex_draws :: draws where
  "ex_draws = \<lparr>atom_location = [2, 1],
     jitter = (\<lambda>i k. if k = 0 then (0, 0) else (3 / 10, - 7)),
     dark_count_tot = 2, dark_count_location_x = [0, 3], dark_count_location_y = [5, 3]\<rparr>"

text \<open>The scenario of the specification without any detection: no atom, no background.\<close>

definition degenerate_params :: params where
  "degenerate_params = \<lparr>N = 2, M = 4, N_atom = 0, N_photon = 1, CCD_resolution = 3,
     lattice_origin = (0, 0), std = 1, N_backg = 0, lam_backg = 200\<rparr>"

definition degenerate_draws :: draws where
  "degenerate_draws = \<lparr>atom_location = [], jitter = (\<lambda>i k. (0, 0)),
     dark_count_tot = 0, dark_count_location_x = [], dark_count_location_y = []\<rparr>"

text \<open>One atom and one photon, the lattice placed outside the camera frame.\<close>

definition offframe_params :: params where
  "offframe_params = \<lparr>N = 2, M = 4, N_atom = 1, N_photon = 1, CCD_resolution = 3,
     lattice_origin = (- 100, - 100), std = 1, N_backg = 0, lam_backg = 200\<rparr>"

definition offframe_draws :: draws where
  "offframe_draws = \<lparr>atom_location = [0], jitter = (\<lambda>i k. (0, 0)),
     dark_count_tot = 0, dark_count_location_x = [], dark_count_location_y = []\<rparr>"




text \<open>A full lattice: every site of the 2 by 2 lattice is drawn.\<close>

definition full_params :: params where
  "full_params = \<lparr>N = 2, M = 3, N_atom = 4, N_photon = 1, CCD_resolution = 8,
     lattice_origin = (1, 1), std = 1, N_backg = 1, lam_backg = 2\<rparr>"

definition full_draws :: draws where
  "full_draws = \<lparr>atom_location = [3, 0, 2, 1], jitter = (\<lambda>i k. (0, 0)),
     dark_count_tot = 0, dark_count_location_x = [], dark_count_location_y = []\<rparr>"

section \<open>Properties of the steps\<close>

lemma is_grid_zeros: "is_grid n (zeros n n)"
  by (simp add: is_grid_def zeros_def list_all_iff)

lemma is_grid_row: "is_grid n g \<Longrightarrow> r < n \<Longrightarrow> length (g ! r) = n"
  by (simp add: is_grid_def list_all_length)

lemma np_index_direct: "0 \<le> i \<Longrightarrow> i < int n \<Longrightarrow> np_index n i = Inr (nat i)"
  by (simp add: np_index_def)

lemma modify_item_direct:
  assumes "is_grid n g" "0 \<le> r" "r < int n" "0 \<le> c" "c < int n"
  shows "modify_item f g r c = Inr (update_cell f g (nat r) (nat c))"
proof -
  have lr: "length (g ! nat r) = n"
    using assms by (simp add: is_grid_row)
  have "np_index (length g) r = Inr (nat r)"
    using assms by (simp add: np_index_direct is_grid_def)
  moreover have "np_index (length (g ! nat r)) c = Inr (nat c)"
    using assms lr by (simp add: np_index_direct)
  ultimately show ?thesis
    by (simp add: modify_item_def update_cell_def)
qed

lemma is_grid_update_cell: "is_grid n g \<Longrightarrow> is_grid n (update_cell f g r c)"
  by (cases "r < length g") (auto simp: is_grid_def update_cell_def list_all_length nth_list_update)

lemma nth_update_cell:
  "is_grid n g \<Longrightarrow> r < n \<Longrightarrow> c < n \<Longrightarrow>
   update_cell f g r' c' ! r ! c = (if r = r' \<and> c = c' then f (g ! r ! c) else g ! r ! c)"
  by (cases "r' < length g") (auto simp: is_grid_def update_cell_def list_all_length nth_list_update)

lemma rasterize_cells:
  "is_grid n g \<Longrightarrow>
   \<exists>g'. rasterize (int n) g evs = Inr g' \<and> is_grid n g' \<and>
     (\<forall>r<n. \<forall>c<n. g' ! r ! c =
        g ! r ! c + (if 0 < r \<and> 0 < c then real (count_list evs (int c, int r)) else 0))"
proof (induction evs arbitrary: g)
  case Nil
  then show ?case by simp
next
  case (Cons ev evs)
  obtain x y where ev: "ev = (x, y)" by (cases ev)
  show ?case
  proof (cases "x < int n \<and> y < int n \<and> x > 0 \<and> y > 0")
    case True
    let ?g1 = "update_cell (\<lambda>v. v + 1) g (nat y) (nat x)"
    have m: "modify_item (\<lambda>v. v + 1) g y x = Inr ?g1"
      using True Cons.prems by (intro modify_item_direct) auto
    have g1: "is_grid n ?g1"
      using Cons.prems by (rule is_grid_update_cell)
    from Cons.IH [OF g1] obtain g' where
      r: "rasterize (int n) ?g1 evs = Inr g'" and gg: "is_grid n g'" and
      c: "\<forall>r<n. \<forall>c<n. g' ! r ! c =
            ?g1 ! r ! c + (if 0 < r \<and> 0 < c then real (count_list evs (int c, int r)) else 0)"
      by blast
    have "rasterize (int n) g (ev # evs) = Inr g'"
      using True m r by (simp add: ev)
    moreover have "\<forall>r<n. \<forall>c<n. g' ! r ! c =
        g ! r ! c + (if 0 < r \<and> 0 < c then real (count_list (ev # evs) (int c, int r)) else 0)"
    proof (intro allI impI)
      fix r c assume rc: "r < n" "c < n"
      have "?g1 ! r ! c = (if r = nat y \<and> c = nat x then g ! r ! c + 1 else g ! r ! c)"
        using Cons.prems rc by (simp add: nth_update_cell)
      moreover have "(r = nat y \<and> c = nat x) \<longleftrightarrow> (x = int c \<and> y = int r)"
        using True by auto
      ultimately show "g' ! r ! c =
        g ! r ! c + (if 0 < r \<and> 0 < c then real (count_list (ev # evs) (int c, int r)) else 0)"
        using c rc True by (auto simp: ev)
    qed
    ultimately show ?thesis using gg by blast
  next
    case False
    from Cons.IH [OF Cons.prems] obtain g' where
      r: "rasterize (int n) g evs = Inr g'" and gg: "is_grid n g'" and
      c: "\<forall>r<n. \<forall>c<n. g' ! r ! c =
            g ! r ! c + (if 0 < r \<and> 0 < c then real (count_list evs (int c, int r)) else 0)"
      by blast
    have "rasterize (int n) g ((x, y) # evs) = rasterize (int n) g evs"
      using False by (simp only: rasterize.simps if_False)
    then have "rasterize (int n) g (ev # evs) = Inr g'"
      using r by (simp only: ev)
    moreover have "\<forall>r<n. \<forall>c<n. g' ! r ! c =
        g ! r ! c + (if 0 < r \<and> 0 < c then real (count_list (ev # evs) (int c, int r)) else 0)"
    proof (intro allI impI)
      fix r c assume rc: "r < n" "c < n"
      have "0 < r \<and> 0 < c \<Longrightarrow> ev \<noteq> (int c, int r)"
        using False rc by (auto simp: ev)
      then show "g' ! r ! c =
        g ! r ! c + (if 0 < r \<and> 0 < c then real (count_list (ev # evs) (int c, int r)) else 0)"
        using c rc by auto
    qed
    ultimately show ?thesis using gg by blast
  qed
qed

lemma grid_eqI:
  assumes "is_grid n g" "is_grid n h" "\<And>r c. r < n \<Longrightarrow> c < n \<Longrightarrow> g ! r ! c = h ! r ! c"
  shows "g = h"
proof (rule nth_equalityI)
  show "length g = length h" using assms by (simp add: is_grid_def)
next
  fix r assume "r < length g"
  then have r: "r < n" using assms by (simp add: is_grid_def)
  show "g ! r = h ! r"
  proof (rule nth_equalityI)
    show "length (g ! r) = length (h ! r)" using assms r by (simp add: is_grid_row)
  next
    fix c assume "c < length (g ! r)"
    then have "c < n" using assms r by (simp add: is_grid_row)
    then show "g ! r ! c = h ! r ! c" using assms r by simp
  qed
qed

lemma is_grid_tabulate: "is_grid n (tabulate n f)"
  by (simp add: is_grid_def tabulate_def list_all_iff)

lemma nth_tabulate: "r < n \<Longrightarrow> c < n \<Longrightarrow> tabulate n f ! r ! c = f r c"
  by (simp add: tabulate_def)

lemma nth_zeros: "r < n \<Longrightarrow> c < n \<Longrightarrow> zeros n n ! r ! c = 0"
  by (simp add: zeros_def)

lemma rasterize_zeros: "rasterize (int n) (zeros n n) evs = Inr (counts_of n evs)"
proof -
  from rasterize_cells [OF is_grid_zeros, of n evs] obtain g' where
    r: "rasterize (int n) (zeros n n) evs = Inr g'" and g: "is_grid n g'" and
    c: "\<forall>r<n. \<forall>c<n. g' ! r ! c =
          zeros n n ! r ! c + (if 0 < r \<and> 0 < c then real (count_list evs (int c, int r)) else 0)"
    by blast
  have "g' = counts_of n evs"
    unfolding counts_of_def
    by (rule grid_eqI [OF g is_grid_tabulate]) (simp add: c nth_tabulate nth_zeros)
  with r show ?thesis by simp
qed

lemma mark_sites_cells:
  "is_grid n g \<Longrightarrow> list_all (\<lambda>(x, y). 0 \<le> x \<and> x < int n \<and> 0 \<le> y \<and> y < int n) ss \<Longrightarrow>
   \<exists>g'. mark_sites g ss = Inr g' \<and> is_grid n g' \<and>
     (\<forall>r<n. \<forall>c<n. g' ! r ! c = (if (int c, int r) \<in> set ss then 1 else g ! r ! c))"
proof (induction ss arbitrary: g)
  case Nil
  then show ?case by simp
next
  case (Cons s ss)
  obtain x y where s: "s = (x, y)" by (cases s)
  have xy: "0 \<le> x" "x < int n" "0 \<le> y" "y < int n" and rest:
    "list_all (\<lambda>(x, y). 0 \<le> x \<and> x < int n \<and> 0 \<le> y \<and> y < int n) ss"
    using Cons.prems(2) by (simp_all add: s)
  let ?g1 = "update_cell (\<lambda>_. 1) g (nat y) (nat x)"
  have m: "modify_item (\<lambda>_. 1) g y x = Inr ?g1"
    using Cons.prems(1) xy by (intro modify_item_direct)
  have g1: "is_grid n ?g1"
    using Cons.prems(1) by (rule is_grid_update_cell)
  from Cons.IH [OF g1 rest] obtain g' where
    r: "mark_sites ?g1 ss = Inr g'" and gg: "is_grid n g'" and
    c: "\<forall>r<n. \<forall>c<n. g' ! r ! c = (if (int c, int r) \<in> set ss then 1 else ?g1 ! r ! c)"
    by blast
  have "mark_sites g (s # ss) = Inr g'"
    using m r by (simp add: s)
  moreover have "\<forall>r<n. \<forall>c<n. g' ! r ! c = (if (int c, int r) \<in> set (s # ss) then 1 else g ! r ! c)"
  proof (intro allI impI)
    fix r c assume rc: "r < n" "c < n"
    have "?g1 ! r ! c = (if r = nat y \<and> c = nat x then 1 else g ! r ! c)"
      using Cons.prems(1) rc by (simp add: nth_update_cell)
    moreover have "(r = nat y \<and> c = nat x) \<longleftrightarrow> (x = int c \<and> y = int r)"
      using xy by auto
    ultimately show "g' ! r ! c = (if (int c, int r) \<in> set (s # ss) then 1 else g ! r ! c)"
      using c rc by (auto simp: s)
  qed
  ultimately show ?case using gg by blast
qed

lemma mark_sites_zeros:
  assumes "list_all (\<lambda>(x, y). 0 \<le> x \<and> x < int n \<and> 0 \<le> y \<and> y < int n) ss"
  shows "mark_sites (zeros n n) ss = Inr (lattice_of n ss)"
proof -
  from mark_sites_cells [OF is_grid_zeros assms] obtain g' where
    r: "mark_sites (zeros n n) ss = Inr g'" and g: "is_grid n g'" and
    c: "\<forall>r<n. \<forall>c<n. g' ! r ! c = (if (int c, int r) \<in> set ss then 1 else zeros n n ! r ! c)"
    by blast
  have "g' = lattice_of n ss"
    unfolding lattice_of_def
    by (rule grid_eqI [OF g is_grid_tabulate]) (simp add: c nth_tabulate nth_zeros)
  with r show ?thesis by simp
qed

lemma photon_loop_run:
  assumes "0 \<le> N_photon p" "list_all (\<lambda>i. i < length xs \<and> i < length ys) js"
  shows "photon_loop p d xs ys js (calls, xl, yl) =
    (calls @ map (\<lambda>i. Multivariate_normal (xs ! i, ys ! i) (std p) (N_photon p)) js,
     Inr (xl @ concat (map (\<lambda>i. fst (atom_photons p d i (xs ! i, ys ! i))) js),
          yl @ concat (map (\<lambda>i. snd (atom_photons p d i (xs ! i, ys ! i))) js)))"
  using assms
proof (induction js arbitrary: calls xl yl)
  case Nil
  then show ?case by simp
next
  case (Cons i js)
  then show ?case
    by (simp add: Let_def split_beta)
qed

lemma unravel_range:
  fixes i n :: int
  assumes "0 \<le> n" "0 \<le> i" "i < n * n"
  shows "0 \<le> i div n \<and> i div n < n \<and> 0 \<le> i mod n \<and> i mod n < n"
proof -
  have n: "0 < n" using assms by (cases "n = 0") auto
  have le: "i div n * n \<le> i"
    using n pos_mod_sign [of n i] div_mult_mod_eq [of i n] by linarith
  have "i div n < n"
  proof (rule ccontr)
    assume "\<not> i div n < n"
    then have "n * n \<le> i div n * n"
      using n by (intro mult_right_mono) auto
    with le assms show False by linarith
  qed
  moreover have "0 \<le> i div n" using assms n by (simp add: pos_imp_zdiv_nonneg_iff)
  ultimately show ?thesis using n by simp
qed

lemma concat_tabulate_nonempty:
  assumes "0 < n"
  shows "concat (tabulate n f) \<noteq> []"
proof -
  have "map (f 0) [0..<n] \<in> set (tabulate n f)"
    using assms by (auto simp: tabulate_def)
  moreover have "map (f 0) [0..<n] \<noteq> []"
    using assms by simp
  ultimately have "\<exists>xs\<in>set (tabulate n f). xs \<noteq> []"
    by blast
  then show ?thesis
    by simp
qed

lemma rescale_counts_of:
  assumes "0 < n"
  shows "rescale (counts_of n evs) = Inr (scaled (counts_of n evs))"
proof -
  have ne: "concat (counts_of n evs) \<noteq> []"
    unfolding counts_of_def using assms by (rule concat_tabulate_nonempty)
  show ?thesis
    unfolding rescale_def scaled_def Let_def by (simp only: ne if_False)
qed

lemma photon_loop_accepted:
  assumes "accepted p" "valid_draws p d"
  shows "photon_loop p d (map (x_index p) (map (\<lambda>i. i div N p) (atom_location d)))
           (map (y_index p) (map (\<lambda>i. i mod N p) (atom_location d)))
           [0..<nat (N_atom p)] (calls, [], []) =
         (calls @ photon_calls p d, Inr (signal_x p d, signal_y p d))"
proof (cases "N_atom p = 0")
  case True
  then show ?thesis
    by (simp add: photon_calls_def signal_x_def signal_y_def)
next
  case False
  then have np: "0 \<le> N_photon p"
    using assms(1) by (simp add: accepted_def)
  have len: "length (atom_location d) = nat (N_atom p)"
    using assms(2) by (simp add: valid_draws_def)
  have r: "list_all (\<lambda>i. i < length (map (x_index p) (map (\<lambda>i. i div N p) (atom_location d))) \<and>
                       i < length (map (y_index p) (map (\<lambda>i. i mod N p) (atom_location d))))
             [0..<nat (N_atom p)]"
    by (simp add: len list_all_iff)
  have e: "(map (x_index p) (map (\<lambda>i. i div N p) (atom_location d)) ! i,
            map (y_index p) (map (\<lambda>i. i mod N p) (atom_location d)) ! i) =
           centre p (atom_location d ! i)" if "i \<in> set [0..<nat (N_atom p)]" for i
    using that by (simp add: centre_def len)
  have "map (\<lambda>i. Multivariate_normal
               (map (x_index p) (map (\<lambda>i. i div N p) (atom_location d)) ! i,
                map (y_index p) (map (\<lambda>i. i mod N p) (atom_location d)) ! i)
               (std p) (N_photon p)) [0..<nat (N_atom p)] = photon_calls p d"
    unfolding photon_calls_def by (rule map_cong [OF refl]) (simp only: e)
  moreover have "map (\<lambda>i. fst (atom_photons p d i
               (map (x_index p) (map (\<lambda>i. i div N p) (atom_location d)) ! i,
                map (y_index p) (map (\<lambda>i. i mod N p) (atom_location d)) ! i)))
            [0..<nat (N_atom p)] = map (\<lambda>i. fst (signal p d i)) [0..<nat (N_atom p)]"
    unfolding signal_def by (rule map_cong [OF refl]) (simp only: e)
  moreover have "map (\<lambda>i. snd (atom_photons p d i
               (map (x_index p) (map (\<lambda>i. i div N p) (atom_location d)) ! i,
                map (y_index p) (map (\<lambda>i. i mod N p) (atom_location d)) ! i)))
            [0..<nat (N_atom p)] = map (\<lambda>i. snd (signal p d i)) [0..<nat (N_atom p)]"
    unfolding signal_def by (rule map_cong [OF refl]) (simp only: e)
  ultimately show ?thesis
    unfolding photon_loop_run [OF np r]
    by (simp only: signal_x_def signal_y_def append_Nil)
qed

lemma sites_in_range:
  assumes "accepted p" "valid_draws p d"
  shows "list_all (\<lambda>(x, y). 0 \<le> x \<and> x < int (nat (N p)) \<and> 0 \<le> y \<and> y < int (nat (N p))) (sites p d)"
proof -
  have n: "0 \<le> N p" using assms(1) by (simp add: accepted_def)
  have "\<forall>i\<in>set (atom_location d). 0 \<le> i \<and> i < N p * N p"
    using assms(2) by (simp add: valid_draws_def list_all_iff)
  then show ?thesis
    using n unravel_range [OF n] by (auto simp: sites_def list_all_iff)
qed

lemma synthesize_accepted:
  assumes "accepted p" "valid_draws p d"
  shows "synthesize p d =
    (Choice (N p * N p) (N_atom p) False # photon_calls p d @ dark_calls p d,
     Inr \<lparr>x_loc = signal_x p d @ dark_count_location_x d,
          y_loc = signal_y p d @ dark_count_location_y d,
          actual_lattice = lattice_of (nat (N p)) (sites p d),
          pixel_grid = scaled (counts_of (nat (CCD_resolution p)) (events p d))\<rparr>)"
proof -
  have a: "\<not> (N p * N p < N_atom p \<or> N_atom p < 0)" "\<not> N p < 0" "\<not> CCD_resolution p < 0"
    "\<not> (poisson_lam_max < lam_backg p * of_int (N_backg p) \<or>
        lam_backg p * of_int (N_backg p) < 0)" "CCD_resolution p \<noteq> 0"
    using assms(1) by (auto simp: accepted_def)
  have u: "unravel_index (atom_location d) (N p) =
      Inr (map (\<lambda>i. i div N p) (atom_location d), map (\<lambda>i. i mod N p) (atom_location d))"
    using assms(2) by (simp add: unravel_index_def valid_draws_def)
  have z: "zip (map (\<lambda>i. i div N p) (atom_location d)) (map (\<lambda>i. i mod N p) (atom_location d)) =
      sites p d"
    by (simp add: sites_def zip_map_map zip_same_conv_map)
  have m: "mark_sites (zeros (nat (N p)) (nat (N p))) (sites p d) =
      Inr (lattice_of (nat (N p)) (sites p d))"
    by (rule mark_sites_zeros [OF sites_in_range [OF assms]])
  have c: "int (nat (CCD_resolution p)) = CCD_resolution p" "0 < nat (CCD_resolution p)"
    using assms(1) by (simp_all add: accepted_def)
  have ra: "rasterize (CCD_resolution p)
      (zeros (nat (CCD_resolution p)) (nat (CCD_resolution p))) (events p d) =
      Inr (counts_of (nat (CCD_resolution p)) (events p d))"
    using rasterize_zeros [of "nat (CCD_resolution p)" "events p d"] by (simp only: c)
  show ?thesis
    unfolding synthesize_def Let_def
    by (simp only: a if_False u sum.case prod.case z m photon_loop_accepted [OF assms]
          events_def [symmetric] ra rescale_counts_of [OF c(2)] dark_calls_def append_Cons
          simp_thms
          append_Nil append_assoc)
qed



lemma length_concat_blocks:
  "list_all (\<lambda>xs. length xs = L) xss \<Longrightarrow> length (concat xss) = length xss * L"
  by (induction xss) auto

lemma length_atom_photons:
  "length (fst (atom_photons p d i c)) = nat (N_photon p)"
  "length (snd (atom_photons p d i c)) = nat (N_photon p)"
  by (simp_all add: atom_photons_def Let_def)

lemma length_signal_x: "length (signal_x p d) = nat (N_atom p) * nat (N_photon p)"
  unfolding signal_x_def
  by (subst length_concat_blocks [where L = "nat (N_photon p)"])
     (simp_all add: list_all_iff signal_def length_atom_photons)

lemma length_signal_y: "length (signal_y p d) = nat (N_atom p) * nat (N_photon p)"
  unfolding signal_y_def
  by (subst length_concat_blocks [where L = "nat (N_photon p)"])
     (simp_all add: list_all_iff signal_def length_atom_photons)




lemma ex_accepted: "accepted ex_params"
  by (simp add: accepted_def ex_params_def poisson_lam_max_def)

lemma ex_valid: "valid_draws ex_params ex_draws"
  by (simp add: valid_draws_def ex_params_def ex_draws_def)

lemma ex_run:
  "synthesize ex_params ex_draws =
    ([Choice 4 2 False, Multivariate_normal (9 / 2, 9 / 2) 1 2, Multivariate_normal (3 / 2, 3 / 2) 1 2,
      Poisson 2, Choice 8 2 True, Choice 8 2 True],
     Inr \<lparr>x_loc = [5, 6, 3, 3, 0, 3], y_loc = [5, - 1, 3, - 5, 5, 3],
          actual_lattice = [[0, 1], [1, 0]],
          pixel_grid =
           [replicate 8 (Finite 600), replicate 8 (Finite 600), replicate 8 (Finite 600),
            [Finite 600, Finite 600, Finite 600, Finite 5600, Finite 600, Finite 600, Finite 600, Finite 600],
            replicate 8 (Finite 600),
            [Finite 600, Finite 600, Finite 600, Finite 600, Finite 600, Finite 3100, Finite 600, Finite 600],
            replicate 8 (Finite 600), replicate 8 (Finite 600)]\<rparr>)"
  by code_simp

lemma length_photon_calls: "length (photon_calls p d) = nat (N_atom p)"
  by (simp add: photon_calls_def)

lemma site_marked:
  assumes "accepted p" "valid_draws p d" "i < nat (N_atom p)"
  shows "lattice_of (nat (N p)) (sites p d)
           ! nat (atom_location d ! i mod N p) ! nat (atom_location d ! i div N p) = 1"
proof -
  let ?s = "atom_location d ! i"
  have len: "length (atom_location d) = nat (N_atom p)"
    using assms(2) by (simp add: valid_draws_def)
  then have mem: "?s \<in> set (atom_location d)"
    using assms(3) by simp
  have n: "0 \<le> N p" using assms(1) by (simp add: accepted_def)
  have "0 \<le> ?s \<and> ?s < N p * N p"
    using assms(2) mem by (simp add: valid_draws_def list_all_iff)
  then have r: "0 \<le> ?s div N p" "?s div N p < N p" "0 \<le> ?s mod N p" "?s mod N p < N p"
    using unravel_range [OF n, of ?s] by simp_all
  have "(?s div N p, ?s mod N p) \<in> set (sites p d)"
    using mem by (auto simp: sites_def)
  then show ?thesis
    using r by (simp add: lattice_of_def nth_tabulate)
qed

lemma synthesize_stages:
  assumes "accepted p" "valid_draws p d"
  shows "\<exists>calls im. synthesize p d = (calls, Inr im) \<and>
     zip (x_loc im) (y_loc im) = events p d \<and>
     x_loc im = signal_x p d @ dark_count_location_x d \<and>
     y_loc im = signal_y p d @ dark_count_location_y d \<and>
     rasterize (CCD_resolution p)
       (zeros (nat (CCD_resolution p)) (nat (CCD_resolution p))) (events p d) =
       Inr (counts_of (nat (CCD_resolution p)) (events p d)) \<and>
     rescale (counts_of (nat (CCD_resolution p)) (events p d)) = Inr (pixel_grid im) \<and>
     pixel_grid im = scaled (counts_of (nat (CCD_resolution p)) (events p d))"
proof -
  have c: "int (nat (CCD_resolution p)) = CCD_resolution p" "0 < nat (CCD_resolution p)"
    using assms(1) by (simp_all add: accepted_def)
  have ra: "rasterize (CCD_resolution p)
      (zeros (nat (CCD_resolution p)) (nat (CCD_resolution p))) (events p d) =
      Inr (counts_of (nat (CCD_resolution p)) (events p d))"
    using rasterize_zeros [of "nat (CCD_resolution p)" "events p d"] by (simp only: c)
  show ?thesis
    unfolding synthesize_accepted [OF assms]
    using ra rescale_counts_of [OF c(2), of "events p d"]
    by (simp add: events_def)
qed

lemma set_concat_tabulate:
  "set (concat (tabulate n f)) = {f r c |r c. r < n \<and> c < n}"
proof -
  have "set (concat (tabulate n f)) = (\<Union>r\<in>{..<n}. f r ` {..<n})"
    by (simp add: tabulate_def atLeast0LessThan)
  also have "\<dots> = {f r c |r c. r < n \<and> c < n}"
    by blast
  finally show ?thesis .
qed

lemma counts_of_cell:
  "r < n \<Longrightarrow> c < n \<Longrightarrow>
   counts_of n evs ! r ! c = (if 0 < r \<and> 0 < c then real (count_list evs (int c, int r)) else 0)"
  by (simp add: counts_of_def nth_tabulate)

lemma counts_of_nonneg: "v \<in> set (concat (counts_of n evs)) \<Longrightarrow> 0 \<le> v"
  unfolding counts_of_def set_concat_tabulate by auto

lemma counts_of_nonempty: "0 < n \<Longrightarrow> concat (counts_of n evs) \<noteq> []"
  unfolding counts_of_def by (rule concat_tabulate_nonempty)

lemma is_grid_counts_of: "is_grid n (counts_of n evs)"
  unfolding counts_of_def by (rule is_grid_tabulate)

lemma grid_cell_in:
  assumes "is_grid n g" "r < n" "c < n"
  shows "g ! r ! c \<in> set (concat g)"
proof -
  have "g ! r \<in> set g"
    using assms by (simp add: is_grid_def)
  moreover have "g ! r ! c \<in> set (g ! r)"
    using assms by (simp add: is_grid_row)
  ultimately show ?thesis
    by auto
qed


lemma scaled_zero_max:
  assumes "concat g \<noteq> []" "\<forall>v\<in>set (concat g). 0 \<le> v" "Max (set (concat g)) = 0"
  shows "list_all (\<lambda>cell. cell = NaN) (concat (scaled g))"
proof -
  have fin: "finite (set (concat g))"
    by simp
  have z: "v = 0" if "v \<in> set (concat g)" for v
  proof -
    have "v \<le> 0" using Max_ge [OF fin that] assms(3) by simp
    moreover have "0 \<le> v" using assms(2) that by blast
    ultimately show ?thesis by simp
  qed
  have "concat (scaled g) = map (\<lambda>c. np_add (np_multiply c PosInf) 600) (concat g)"
    using assms(3) by (simp add: scaled_def np_divide_def map_concat)
  then show ?thesis
    using z by (auto simp: list_all_iff)
qed

lemma counts_of_max_zero:
  assumes "0 < n"
  shows "Max (set (concat (counts_of n evs))) = 0 \<longleftrightarrow>
    list_all (\<lambda>(x, y). \<not> (0 < x \<and> x < int n \<and> 0 < y \<and> y < int n)) evs"
proof
  let ?S = "set (concat (counts_of n evs))"
  have fin: "finite ?S" by simp
  assume mz: "Max ?S = 0"
  show "list_all (\<lambda>(x, y). \<not> (0 < x \<and> x < int n \<and> 0 < y \<and> y < int n)) evs"
    unfolding list_all_iff
  proof (intro ballI, clarify)
    fix x y assume e: "(x, y) \<in> set evs" and b: "0 < x" "x < int n" "0 < y" "y < int n"
    have "0 < count_list evs (x, y)"
      using e count_list_0_iff [of evs "(x, y)"] by simp
    then have pos: "0 < real (count_list evs (x, y))"
      by simp
    have mem: "real (count_list evs (x, y)) \<in> ?S"
    proof -
      have i: "nat y < n" "nat x < n"
        using b by simp_all
      have "counts_of n evs ! nat y ! nat x = real (count_list evs (x, y))"
        using b by (simp add: counts_of_cell [OF i])
      then show ?thesis
        using grid_cell_in [OF is_grid_counts_of i, of evs] by simp
    qed
    from Max_ge [OF fin mem] pos have "0 < Max ?S"
      by linarith
    with mz show False by linarith
  qed
next
  let ?S = "set (concat (counts_of n evs))"
  assume out: "list_all (\<lambda>(x, y). \<not> (0 < x \<and> x < int n \<and> 0 < y \<and> y < int n)) evs"
  have all0: "f = 0" if "f \<in> ?S" for f
  proof -
    from that obtain r c where rc: "r < n" "c < n" and
      f: "f = (if 0 < r \<and> 0 < c then real (count_list evs (int c, int r)) else 0)"
      unfolding counts_of_def set_concat_tabulate by blast
    have "(int c, int r) \<notin> set evs" if "0 < r \<and> 0 < c"
      using out that rc by (auto simp: list_all_iff)
    then show ?thesis
      using f by (simp add: count_list_0_iff)
  qed
  have "finite ?S" "?S \<noteq> {}"
    using counts_of_nonempty [OF assms, of evs] by simp_all
  then have "Max ?S \<in> ?S"
    by (rule Max_in)
  then show "Max ?S = 0"
    by (rule all0)
qed

lemma is_grid_scaled: "is_grid n g \<Longrightarrow> is_grid n (scaled g)"
  by (simp add: is_grid_def scaled_def list_all_iff)


lemma offframe_accepted: "accepted offframe_params"
  by (simp add: accepted_def offframe_params_def poisson_lam_max_def)

lemma offframe_valid: "valid_draws offframe_params offframe_draws"
  by (simp add: valid_draws_def offframe_params_def offframe_draws_def)

lemma offframe_run:
  "synthesize offframe_params offframe_draws =
    ([Choice 4 1 False, Multivariate_normal (2, 6) 1 1, Poisson 0, Choice 3 0 True, Choice 3 0 True],
     Inr \<lparr>x_loc = [- 98], y_loc = [- 94], actual_lattice = [[1, 0], [0, 0]],
          pixel_grid = [[NaN, NaN, NaN], [NaN, NaN, NaN], [NaN, NaN, NaN]]\<rparr>)"
  by code_simp

lemma degenerate_run:
  "synthesize degenerate_params degenerate_draws =
    ([Choice 4 0 False, Poisson 0, Choice 3 0 True, Choice 3 0 True],
     Inr \<lparr>x_loc = [], y_loc = [], actual_lattice = [[0, 0], [0, 0]],
          pixel_grid = [[NaN, NaN, NaN], [NaN, NaN, NaN], [NaN, NaN, NaN]]\<rparr>)"
  by code_simp




lemma count_list_tabulate:
  "count_list (concat (tabulate n f)) v = (\<Sum>r<n. card {c. c < n \<and> f r c = v})"
proof -
  have row: "count_list (map (f r) [0..<n]) v = card {c. c < n \<and> f r c = v}" for r
  proof -
    have "count_list (map (f r) [0..<n]) v = length (filter ((=) v) (map (f r) [0..<n]))"
      by (rule count_list_eq_length_filter)
    also have "\<dots> = length (filter ((=) v \<circ> f r) [0..<n])"
      by (simp only: filter_map length_map)
    also have "\<dots> = card ({c. ((=) v \<circ> f r) c} \<inter> set [0..<n])"
      by (rule distinct_length_filter) simp
    also have "{c. ((=) v \<circ> f r) c} \<inter> set [0..<n] = {c. c < n \<and> f r c = v}"
      by auto
    finally show ?thesis .
  qed
  have "count_list (concat (tabulate n f)) v =
      sum_list (map (\<lambda>xs. count_list xs v) (tabulate n f))"
    by (rule count_list_concat)
  also have "\<dots> = sum_list (map (\<lambda>r. count_list (map (f r) [0..<n]) v) [0..<n])"
    by (simp only: tabulate_def map_map comp_def)
  also have "\<dots> = sum (\<lambda>r. count_list (map (f r) [0..<n]) v) (set [0..<n])"
    by (rule interv_sum_list_conv_sum_set_nat)
  also have "set [0..<n] = {..<n}"
    by auto
  finally show ?thesis
    by (simp only: row)
qed

lemma count_two_values:
  "set xs \<subseteq> {a, b} \<Longrightarrow> a \<noteq> b \<Longrightarrow> count_list xs a + count_list xs b = length xs"
  by (induction xs) auto

lemma length_concat_grid: "is_grid n g \<Longrightarrow> length (concat g) = n * n"
  using length_concat_blocks [of n g] by (simp add: is_grid_def)

lemma unravel_inj:
  fixes i j n :: int
  assumes "i div n = j div n" "i mod n = j mod n"
  shows "i = j"
proof -
  have "i = i div n * n + i mod n"
    by simp
  also have "\<dots> = j div n * n + j mod n"
    by (simp only: assms)
  also have "\<dots> = j"
    by simp
  finally show ?thesis .
qed

lemma lattice_ones:
  assumes "accepted p" "valid_draws p d"
  shows "count_list (concat (lattice_of (nat (N p)) (sites p d))) 1 = nat (N_atom p)"
proof -
  let ?n = "nat (N p)"
  let ?A = "set (atom_location d)"
  let ?g = "\<lambda>i. (nat (i mod N p), nat (i div N p))"
  let ?B = "\<lambda>r. {c. c < ?n \<and> (int c, int r) \<in> set (sites p d)}"
  have n: "0 \<le> N p" using assms(1) by (simp add: accepted_def)
  have rng: "0 \<le> i div N p \<and> i div N p < N p \<and> 0 \<le> i mod N p \<and> i mod N p < N p"
    if "i \<in> ?A" for i
  proof -
    have "0 \<le> i \<and> i < N p * N p"
      using assms(2) that by (simp add: valid_draws_def list_all_iff)
    then show ?thesis using unravel_range [OF n, of i] by simp
  qed
  have "count_list (concat (lattice_of ?n (sites p d))) 1 =
      (\<Sum>r<?n. card {c. c < ?n \<and> (if (int c, int r) \<in> set (sites p d) then 1 else 0) = (1::real)})"
    unfolding lattice_of_def by (rule count_list_tabulate)
  also have "\<dots> = (\<Sum>r<?n. card (?B r))"
    by (intro sum.cong refl arg_cong [where f = card]) auto
  also have "\<dots> = card (SIGMA r:{..<?n}. ?B r)"
    by (subst card_SigmaI) simp_all
  also have "(SIGMA r:{..<?n}. ?B r) = ?g ` ?A"
  proof (intro set_eqI iffI)
    fix q assume "q \<in> (SIGMA r:{..<?n}. ?B r)"
    then obtain r c where q: "q = (r, c)" and "(int c, int r) \<in> set (sites p d)"
      by auto
    then obtain i where i: "i \<in> ?A" "int c = i div N p" "int r = i mod N p"
      by (auto simp: sites_def)
    have "nat (i mod N p) = r" "nat (i div N p) = c"
      by (simp_all add: i(2) [symmetric] i(3) [symmetric])
    then have "q = ?g i"
      by (simp add: q)
    then show "q \<in> ?g ` ?A"
      using i(1) by (rule image_eqI)
  next
    fix q assume "q \<in> ?g ` ?A"
    then obtain i where i: "i \<in> ?A" and q: "q = ?g i"
      by blast
    have "(i div N p, i mod N p) \<in> set (sites p d)"
      using i by (auto simp: sites_def)
    then show "q \<in> (SIGMA r:{..<?n}. ?B r)"
      using rng [OF i] q by simp
  qed
  also have "card (?g ` ?A) = card ?A"
  proof (rule card_image, rule inj_onI)
    fix i j assume ij: "i \<in> ?A" "j \<in> ?A" and e: "?g i = ?g j"
    have en: "nat (i div N p) = nat (j div N p)" "nat (i mod N p) = nat (j mod N p)"
      using e by simp_all
    have "i div N p = j div N p"
      using en(1) eq_nat_nat_iff [of "i div N p" "j div N p"] rng [OF ij(1)] rng [OF ij(2)]
      by blast
    moreover have "i mod N p = j mod N p"
      using en(2) eq_nat_nat_iff [of "i mod N p" "j mod N p"] rng [OF ij(1)] rng [OF ij(2)]
      by blast
    ultimately show "i = j"
      by (rule unravel_inj)
  qed
  also have "card ?A = nat (N_atom p)"
    using assms(2) by (simp add: valid_draws_def distinct_card)
  finally show ?thesis .
qed

lemma lattice_values: "set (concat (lattice_of n ss)) \<subseteq> {0, 1}"
  unfolding lattice_of_def set_concat_tabulate by auto

lemma full_accepted: "accepted full_params"
  by (simp add: accepted_def full_params_def poisson_lam_max_def)

lemma full_valid: "valid_draws full_params full_draws"
  by (simp add: valid_draws_def full_params_def full_draws_def)

section \<open>The claims\<close>

subsection \<open>The rescale with a maximum of 0\<close>

text \<open>
  Claim C1, as the code has it. No guard precedes the rescale. The maximum before the
  rescale is 0 exactly when no event lies strictly inside the frame (which includes, and
  is not limited to, no atom and no dark count); then the constructor still returns, and
  every cell of the stored \<open>pixel_grid\<close> is NaN: \<open>5000 / 0\<close> is an infinity and
  \<open>0 * inf\<close> is NaN.
\<close>

theorem zero_maximum_unguarded:
  assumes "accepted p" "valid_draws p d"
  shows "\<exists>calls im counts. synthesize p d = (calls, Inr im) \<and>
     rasterize (CCD_resolution p)
       (zeros (nat (CCD_resolution p)) (nat (CCD_resolution p)))
       (zip (x_loc im) (y_loc im)) = Inr counts \<and>
     rescale counts = Inr (pixel_grid im) \<and>
     (Max (set (concat counts)) = 0 \<longleftrightarrow>
        list_all (\<lambda>(x, y). \<not> (0 < x \<and> x < CCD_resolution p \<and> 0 < y \<and> y < CCD_resolution p))
          (zip (x_loc im) (y_loc im))) \<and>
     (N_atom p = 0 \<and> dark_count_tot d = 0 \<longrightarrow> Max (set (concat counts)) = 0) \<and>
     (Max (set (concat counts)) = 0 \<longrightarrow>
        is_grid (nat (CCD_resolution p)) (pixel_grid im) \<and>
        list_all (\<lambda>cell. cell = NaN) (concat (pixel_grid im)))"
proof -
  from synthesize_stages [OF assms] obtain calls im where
    s: "synthesize p d = (calls, Inr im)" and
    z: "zip (x_loc im) (y_loc im) = events p d" and
    ra: "rasterize (CCD_resolution p)
       (zeros (nat (CCD_resolution p)) (nat (CCD_resolution p))) (events p d) =
       Inr (counts_of (nat (CCD_resolution p)) (events p d))" and
    re: "rescale (counts_of (nat (CCD_resolution p)) (events p d)) = Inr (pixel_grid im)" and
    pg: "pixel_grid im = scaled (counts_of (nat (CCD_resolution p)) (events p d))"
    by blast
  let ?g = "counts_of (nat (CCD_resolution p)) (events p d)"
  have n: "0 < nat (CCD_resolution p)" "int (nat (CCD_resolution p)) = CCD_resolution p"
    using assms(1) by (simp_all add: accepted_def)
  have ne: "concat ?g \<noteq> []"
    using n(1) by (rule counts_of_nonempty)
  have nn: "\<forall>v\<in>set (concat ?g). 0 \<le> v"
    using counts_of_nonneg by blast
  have iff: "Max (set (concat ?g)) = 0 \<longleftrightarrow>
        list_all (\<lambda>(x, y). \<not> (0 < x \<and> x < CCD_resolution p \<and> 0 < y \<and> y < CCD_resolution p))
          (events p d)"
    using counts_of_max_zero [OF n(1), of "events p d"] by (simp only: n(2))
  have none: "Max (set (concat ?g)) = 0" if "N_atom p = 0 \<and> dark_count_tot d = 0"
  proof -
    have "dark_count_location_x d = []"
      using assms(2) that by (simp add: valid_draws_def)
    moreover have "signal_x p d = []"
      using that by (simp add: signal_x_def)
    ultimately have "events p d = []"
      by (simp add: events_def)
    then show ?thesis
      using iff by simp
  qed
  have "is_grid (nat (CCD_resolution p)) (pixel_grid im)"
    unfolding pg by (intro is_grid_scaled is_grid_counts_of)
  moreover have "Max (set (concat ?g)) = 0 \<longrightarrow> list_all (\<lambda>cell. cell = NaN) (concat (pixel_grid im))"
    unfolding pg using scaled_zero_max [OF ne nn] by blast
  ultimately show ?thesis
    using s ra re iff none unfolding z [symmetric] by blast
qed

theorem zero_maximum_unguarded_witness:
  "accepted offframe_params \<and> valid_draws offframe_params offframe_draws \<and>
   N_atom offframe_params = 1 \<and>
   (\<exists>calls im counts. synthesize offframe_params offframe_draws = (calls, Inr im) \<and>
      x_loc im = [- 98] \<and> y_loc im = [- 94] \<and>
      rasterize 3 (zeros 3 3) (zip (x_loc im) (y_loc im)) = Inr counts \<and>
      Max (set (concat counts)) = 0 \<and>
      list_all (\<lambda>cell. cell = NaN) (concat (pixel_grid im)))"
proof -
  have c: "CCD_resolution offframe_params = 3" "N_atom offframe_params = 1"
    by (simp_all add: offframe_params_def)
  from zero_maximum_unguarded [OF offframe_accepted offframe_valid] obtain calls im counts where
    s: "synthesize offframe_params offframe_draws = (calls, Inr im)" and
    ra: "rasterize (CCD_resolution offframe_params)
       (zeros (nat (CCD_resolution offframe_params)) (nat (CCD_resolution offframe_params)))
       (zip (x_loc im) (y_loc im)) = Inr counts" and
    iff: "Max (set (concat counts)) = 0 \<longleftrightarrow>
        list_all (\<lambda>(x, y). \<not> (0 < x \<and> x < CCD_resolution offframe_params \<and>
                           0 < y \<and> y < CCD_resolution offframe_params))
          (zip (x_loc im) (y_loc im))" and
    imp: "Max (set (concat counts)) = 0 \<longrightarrow>
        is_grid (nat (CCD_resolution offframe_params)) (pixel_grid im) \<and>
        list_all (\<lambda>cell. cell = NaN) (concat (pixel_grid im))"
    by blast
  have im: "x_loc im = [- 98]" "y_loc im = [- 94]"
    using s unfolding offframe_run by auto
  have mx: "Max (set (concat counts)) = 0"
    using iff by (simp add: im)
  with imp have "list_all (\<lambda>cell. cell = NaN) (concat (pixel_grid im))"
    by blast
  moreover have "rasterize 3 (zeros 3 3) (zip (x_loc im) (y_loc im)) = Inr counts"
    using ra by (simp add: c)
  ultimately show ?thesis
    using offframe_accepted offframe_valid c(2) s im mx by blast
qed

text \<open>
  The statement of C1 fails on the code: with no atom and no dark count the constructor
  returns an image whose grid is NaN throughout, and raises nothing; and the maximum is
  also 0 with one atom, when its photon falls outside the frame.
\<close>

theorem degenerate_image_counterexample:
  "N_atom degenerate_params = 0 \<and> N_backg degenerate_params = 0 \<and>
   dark_count_tot degenerate_draws = 0 \<and>
   synthesize degenerate_params degenerate_draws =
    ([Choice 4 0 False, Poisson 0, Choice 3 0 True, Choice 3 0 True],
     Inr \<lparr>x_loc = [], y_loc = [], actual_lattice = [[0, 0], [0, 0]],
          pixel_grid = [[NaN, NaN, NaN], [NaN, NaN, NaN], [NaN, NaN, NaN]]\<rparr>) \<and>
   N_atom offframe_params = 1 \<and>
   synthesize offframe_params offframe_draws =
    ([Choice 4 1 False, Multivariate_normal (2, 6) 1 1, Poisson 0, Choice 3 0 True, Choice 3 0 True],
     Inr \<lparr>x_loc = [- 98], y_loc = [- 94], actual_lattice = [[1, 0], [0, 0]],
          pixel_grid = [[NaN, NaN, NaN], [NaN, NaN, NaN], [NaN, NaN, NaN]]\<rparr>)"
  using degenerate_run offframe_run
  by (simp add: degenerate_params_def degenerate_draws_def offframe_params_def)

subsection \<open>Parameters the constructor rejects\<close>




subsection \<open>Rasterization\<close>

text \<open>
  Claim C3. The grid handed to the rescale holds, in cell \<open>[r][c]\<close> with \<open>0 < r\<close> and
  \<open>0 < c\<close>, the number of events equal to \<open>(c, r)\<close>, and 0 in row 0 and in column 0: an
  event counts, once and in its own cell, exactly when both coordinates are strictly
  between 0 and \<open>CCD_resolution\<close>. The events are read from the stored \<open>x_loc\<close> and
  \<open>y_loc\<close>, which hold every event, the dropped ones too.
\<close>

theorem rasterization_strict_bounds:
  assumes "accepted p" "valid_draws p d"
  shows "\<exists>calls im counts. synthesize p d = (calls, Inr im) \<and>
     rasterize (CCD_resolution p)
       (zeros (nat (CCD_resolution p)) (nat (CCD_resolution p)))
       (zip (x_loc im) (y_loc im)) = Inr counts \<and>
     rescale counts = Inr (pixel_grid im) \<and>
     (\<forall>r<nat (CCD_resolution p). \<forall>c<nat (CCD_resolution p).
        counts ! r ! c =
          (if 0 < r \<and> 0 < c
           then real (count_list (zip (x_loc im) (y_loc im)) (int c, int r)) else 0)) \<and>
     x_loc im = signal_x p d @ dark_count_location_x d \<and>
     y_loc im = signal_y p d @ dark_count_location_y d"
proof -
  from synthesize_stages [OF assms] obtain calls im where
    s: "synthesize p d = (calls, Inr im)" and
    z: "zip (x_loc im) (y_loc im) = events p d" and
    xy: "x_loc im = signal_x p d @ dark_count_location_x d"
        "y_loc im = signal_y p d @ dark_count_location_y d" and
    ra: "rasterize (CCD_resolution p)
       (zeros (nat (CCD_resolution p)) (nat (CCD_resolution p))) (events p d) =
       Inr (counts_of (nat (CCD_resolution p)) (events p d))" and
    re: "rescale (counts_of (nat (CCD_resolution p)) (events p d)) = Inr (pixel_grid im)"
    by blast
  have "\<forall>r<nat (CCD_resolution p). \<forall>c<nat (CCD_resolution p).
        counts_of (nat (CCD_resolution p)) (events p d) ! r ! c =
          (if 0 < r \<and> 0 < c then real (count_list (events p d) (int c, int r)) else 0)"
    by (simp add: counts_of_def nth_tabulate)
  then show ?thesis
    using s ra re xy unfolding z [symmetric] by blast
qed

theorem rasterization_strict_bounds_witness:
  "accepted ex_params \<and> valid_draws ex_params ex_draws \<and>
   (\<exists>calls im counts. synthesize ex_params ex_draws = (calls, Inr im) \<and>
      rasterize 8 (zeros 8 8) (zip (x_loc im) (y_loc im)) = Inr counts \<and>
      zip (x_loc im) (y_loc im) = [(5, 5), (6, - 1), (3, 3), (3, - 5), (0, 5), (3, 3)] \<and>
      counts ! 3 ! 3 = 2 \<and> counts ! 5 ! 5 = 1 \<and> counts ! 5 ! 0 = 0)"
proof -
  have c: "CCD_resolution ex_params = 8"
    by (simp add: ex_params_def)
  from rasterization_strict_bounds [OF ex_accepted ex_valid] obtain calls im counts where
    s: "synthesize ex_params ex_draws = (calls, Inr im)" and
    ra: "rasterize (CCD_resolution ex_params)
       (zeros (nat (CCD_resolution ex_params)) (nat (CCD_resolution ex_params)))
       (zip (x_loc im) (y_loc im)) = Inr counts" and
    cells: "\<forall>r<nat (CCD_resolution ex_params). \<forall>c<nat (CCD_resolution ex_params).
        counts ! r ! c =
          (if 0 < r \<and> 0 < c
           then real (count_list (zip (x_loc im) (y_loc im)) (int c, int r)) else 0)"
    by blast
  have im: "x_loc im = [5, 6, 3, 3, 0, 3]" "y_loc im = [5, - 1, 3, - 5, 5, 3]"
    using s unfolding ex_run by auto
  have z: "zip (x_loc im) (y_loc im) = [(5, 5), (6, - 1), (3, 3), (3, - 5), (0, 5), (3, 3)]"
    by (simp add: im)
  have "counts ! 3 ! 3 = 2" "counts ! 5 ! 5 = 1" "counts ! 5 ! 0 = 0"
    using cells by (simp_all add: c z)
  moreover have "rasterize 8 (zeros 8 8) (zip (x_loc im) (y_loc im)) = Inr counts"
    using ra by (simp add: c)
  ultimately show ?thesis
    using ex_accepted ex_valid s z by blast
qed

subsection \<open>Camera rescale\<close>



subsection \<open>Ground-truth occupancy\<close>

text \<open>
  Claim C5. The sites are requested from the sampler without replacement. On every
  accepted input, the sampler having answered with \<open>N_atom\<close> distinct sites, the stored
  \<open>actual_lattice\<close> is an \<open>N\<close> by \<open>N\<close> grid of zeros and ones with exactly \<open>N_atom\<close> ones and \<open>N*N - N_atom\<close> zeros; with \<open>N_atom = N*N\<close> it is all ones,
  and the constructor returns.
\<close>

theorem ground_truth_occupancy:
  assumes "accepted p" "valid_draws p d"
  shows "\<exists>calls im. synthesize p d = (calls, Inr im) \<and>
     calls ! 0 = Choice (N p * N p) (N_atom p) False \<and>
     is_grid (nat (N p)) (actual_lattice im) \<and>
     set (concat (actual_lattice im)) \<subseteq> {0, 1} \<and>
     count_list (concat (actual_lattice im)) 1 = nat (N_atom p) \<and>
     count_list (concat (actual_lattice im)) 0 = nat (N p * N p - N_atom p) \<and>
     (N_atom p = N p * N p \<longrightarrow> list_all (\<lambda>v. v = 1) (concat (actual_lattice im)))"
proof -
  let ?L = "lattice_of (nat (N p)) (sites p d)"
  have g: "is_grid (nat (N p)) ?L"
    unfolding lattice_of_def by (rule is_grid_tabulate)
  have v: "set (concat ?L) \<subseteq> {0, 1}"
    by (rule lattice_values)
  have one: "count_list (concat ?L) 1 = nat (N_atom p)"
    by (rule lattice_ones [OF assms])
  have "count_list (concat ?L) 0 + count_list (concat ?L) 1 = length (concat ?L)"
    using v by (intro count_two_values) simp_all
  then have "count_list (concat ?L) 0 + nat (N_atom p) = nat (N p) * nat (N p)"
    using one length_concat_grid [OF g] by simp
  then have "count_list (concat ?L) 0 = nat (N p) * nat (N p) - nat (N_atom p)"
    by (rule add_implies_diff)
  moreover have "nat (N p * N p - N_atom p) = nat (N p) * nat (N p) - nat (N_atom p)"
    using assms(1) by (simp add: accepted_def nat_diff_distrib nat_mult_distrib)
  ultimately have zero: "count_list (concat ?L) 0 = nat (N p * N p - N_atom p)"
    by simp
  have full: "list_all (\<lambda>v. v = 1) (concat ?L)" if "N_atom p = N p * N p"
  proof -
    have "count_list (concat ?L) 0 = 0"
      using zero that by simp
    then have "0 \<notin> set (concat ?L)"
      using count_list_0_iff [of "concat ?L" 0] by blast
    then show ?thesis
      using v unfolding list_all_iff by blast
  qed
  show ?thesis
    unfolding synthesize_accepted [OF assms]
    using g v one zero full by simp
qed

theorem ground_truth_occupancy_witness:
  "accepted full_params \<and> valid_draws full_params full_draws \<and>
   N_atom full_params = N full_params * N full_params \<and>
   (\<exists>calls im. synthesize full_params full_draws = (calls, Inr im) \<and>
      is_grid 2 (actual_lattice im) \<and>
      count_list (concat (actual_lattice im)) 1 = 4 \<and>
      count_list (concat (actual_lattice im)) 0 = 0 \<and>
      list_all (\<lambda>v. v = 1) (concat (actual_lattice im)))"
proof -
  have f: "N_atom full_params = N full_params * N full_params"
    by (simp add: full_params_def)
  from ground_truth_occupancy [OF full_accepted full_valid] obtain calls im where
    "synthesize full_params full_draws = (calls, Inr im)"
    "is_grid (nat (N full_params)) (actual_lattice im)"
    "count_list (concat (actual_lattice im)) 1 = nat (N_atom full_params)"
    "count_list (concat (actual_lattice im)) 0 =
       nat (N full_params * N full_params - N_atom full_params)"
    "N_atom full_params = N full_params * N full_params \<longrightarrow>
       list_all (\<lambda>v. v = 1) (concat (actual_lattice im))"
    by blast
  then have "synthesize full_params full_draws = (calls, Inr im) \<and>
      is_grid 2 (actual_lattice im) \<and>
      count_list (concat (actual_lattice im)) 1 = 4 \<and>
      count_list (concat (actual_lattice im)) 0 = 0 \<and>
      list_all (\<lambda>v. v = 1) (concat (actual_lattice im))"
    using f by (simp add: full_params_def)
  then show ?thesis
    using full_accepted full_valid f by blast
qed

subsection \<open>Coordinate sequences\<close>

text \<open>
  Claim C6. On every accepted input the stored \<open>x_loc\<close> and \<open>y_loc\<close> have the same
  length, \<open>N_atom * N_photon + dark_count_tot\<close>; each is the signal coordinates of all
  atoms (none filtered out) followed by the background coordinates the sampler returned,
  so that the pairing by index is kept.
\<close>

theorem coordinate_sequences:
  assumes "accepted p" "valid_draws p d"
  shows "\<exists>calls im. synthesize p d = (calls, Inr im) \<and>
     length (x_loc im) = length (y_loc im) \<and>
     int (length (x_loc im)) = N_atom p * N_photon p + int (dark_count_tot d) \<and>
     x_loc im = signal_x p d @ dark_count_location_x d \<and>
     y_loc im = signal_y p d @ dark_count_location_y d \<and>
     length (signal_x p d) = length (signal_y p d) \<and>
     length (dark_count_location_x d) = dark_count_tot d \<and>
     length (dark_count_location_y d) = dark_count_tot d"
proof -
  have dx: "length (dark_count_location_x d) = dark_count_tot d"
    and dy: "length (dark_count_location_y d) = dark_count_tot d"
    using assms(2) by (simp_all add: valid_draws_def)
  have "int (nat (N_atom p) * nat (N_photon p)) = N_atom p * N_photon p"
  proof (cases "N_atom p = 0")
    case True
    then show ?thesis by simp
  next
    case False
    then have "0 \<le> N_atom p" "0 \<le> N_photon p"
      using assms(1) by (auto simp: accepted_def)
    then show ?thesis by simp
  qed
  then have "int (length (signal_x p d @ dark_count_location_x d)) =
      N_atom p * N_photon p + int (dark_count_tot d)"
    by (simp add: length_signal_x dx)
  then show ?thesis
    unfolding synthesize_accepted [OF assms]
    by (simp add: length_signal_x length_signal_y dx dy)
qed

theorem coordinate_sequences_witness:
  "accepted ex_params \<and> valid_draws ex_params ex_draws \<and>
   (\<exists>calls im. synthesize ex_params ex_draws = (calls, Inr im) \<and>
      length (x_loc im) = 6 \<and> length (y_loc im) = 6 \<and>
      x_loc im = [5, 6, 3, 3] @ [0, 3] \<and> y_loc im = [5, - 1, 3, - 5] @ [5, 3])"
proof -
  have s: "signal_x ex_params ex_draws = [5, 6, 3, 3]" "signal_y ex_params ex_draws = [5, - 1, 3, - 5]"
    by code_simp+
  have d: "dark_count_location_x ex_draws = [0, 3]" "dark_count_location_y ex_draws = [5, 3]"
    by (simp_all add: ex_draws_def)
  from coordinate_sequences [OF ex_accepted ex_valid] obtain calls im where
    "synthesize ex_params ex_draws = (calls, Inr im)"
    "x_loc im = signal_x ex_params ex_draws @ dark_count_location_x ex_draws"
    "y_loc im = signal_y ex_params ex_draws @ dark_count_location_y ex_draws"
    by blast
  then have "synthesize ex_params ex_draws = (calls, Inr im) \<and>
      length (x_loc im) = 6 \<and> length (y_loc im) = 6 \<and>
      x_loc im = [5, 6, 3, 3] @ [0, 3] \<and> y_loc im = [5, - 1, 3, - 5] @ [5, 3]"
    by (simp add: s d)
  then show ?thesis
    using ex_accepted ex_valid by blast
qed

subsection \<open>Photon coordinates\<close>



subsection \<open>Background events\<close>

text \<open>
  Claim C8. After the photons of the atoms the code asks the sampler for one Poisson
  count of mean \<open>lam_backg * N_backg\<close> (the only Poisson request of the run), then twice
  for \<open>dark_count_tot\<close> values chosen with replacement from \<open>arange(CCD_resolution)\<close>; the
  answers are the last \<open>dark_count_tot\<close> entries of \<open>x_loc\<close> and of \<open>y_loc\<close>.
\<close>

theorem background_sampling:
  assumes "accepted p" "valid_draws p d"
  shows "\<exists>calls im. synthesize p d = (calls, Inr im) \<and>
     drop (Suc (nat (N_atom p))) calls =
       [Poisson (lam_backg p * of_int (N_backg p)),
        Choice (CCD_resolution p) (int (dark_count_tot d)) True,
        Choice (CCD_resolution p) (int (dark_count_tot d)) True] \<and>
     filter (\<lambda>c. case c of Poisson l \<Rightarrow> True | _ \<Rightarrow> False) calls =
       [Poisson (lam_backg p * of_int (N_backg p))] \<and>
     drop (length (x_loc im) - dark_count_tot d) (x_loc im) = dark_count_location_x d \<and>
     drop (length (y_loc im) - dark_count_tot d) (y_loc im) = dark_count_location_y d \<and>
     length (dark_count_location_x d) = dark_count_tot d \<and>
     length (dark_count_location_y d) = dark_count_tot d"
proof -
  have dx: "length (dark_count_location_x d) = dark_count_tot d"
    and dy: "length (dark_count_location_y d) = dark_count_tot d"
    using assms(2) by (simp_all add: valid_draws_def)
  have f: "filter (\<lambda>c. case c of Poisson l \<Rightarrow> True | _ \<Rightarrow> False) (photon_calls p d) = []"
    by (simp add: photon_calls_def filter_empty_conv)
  show ?thesis
    unfolding synthesize_accepted [OF assms]
    by (simp add: dx dy f length_photon_calls) (simp add: dark_calls_def)
qed

theorem background_sampling_witness:
  "accepted ex_params \<and> valid_draws ex_params ex_draws \<and>
   (\<exists>calls im. synthesize ex_params ex_draws = (calls, Inr im) \<and>
      drop 3 calls = [Poisson 2, Choice 8 2 True, Choice 8 2 True] \<and>
      drop (length (x_loc im) - 2) (x_loc im) = [0, 3] \<and>
      drop (length (y_loc im) - 2) (y_loc im) = [5, 3])"
proof -
  from background_sampling [OF ex_accepted ex_valid] obtain calls im where
    "synthesize ex_params ex_draws = (calls, Inr im)"
    "drop (Suc (nat (N_atom ex_params))) calls =
       [Poisson (lam_backg ex_params * of_int (N_backg ex_params)),
        Choice (CCD_resolution ex_params) (int (dark_count_tot ex_draws)) True,
        Choice (CCD_resolution ex_params) (int (dark_count_tot ex_draws)) True]"
    "drop (length (x_loc im) - dark_count_tot ex_draws) (x_loc im) = dark_count_location_x ex_draws"
    "drop (length (y_loc im) - dark_count_tot ex_draws) (y_loc im) = dark_count_location_y ex_draws"
    by blast
  then have "synthesize ex_params ex_draws = (calls, Inr im) \<and>
      drop 3 calls = [Poisson 2, Choice 8 2 True, Choice 8 2 True] \<and>
      drop (length (x_loc im) - 2) (x_loc im) = [0, 3] \<and>
      drop (length (y_loc im) - 2) (y_loc im) = [5, 3]"
    by (simp add: ex_params_def ex_draws_def eval_nat_numeral)
  then show ?thesis
    using ex_accepted ex_valid by blast
qed

subsection \<open>Orientation of the ground truth\<close>

text \<open>
  Claim C9. The site of atom \<open>i\<close>, unravelled to \<open>(a, b)\<close>, is marked at
  \<open>actual_lattice[b][a]\<close> with no inversion of the row, while the Gaussian the sampler is
  asked for is centred at \<open>y = N*M - (b*M + M/2)\<close>: for positive \<open>M\<close> a larger row \<open>b\<close>
  of the ground truth is a smaller pixel row of the image.
\<close>

theorem ground_truth_orientation:
  assumes "accepted p" "valid_draws p d" "i < nat (N_atom p)"
  shows "\<exists>calls im. synthesize p d = (calls, Inr im) \<and>
     actual_lattice im ! nat (atom_location d ! i mod N p) ! nat (atom_location d ! i div N p) = 1 \<and>
     calls ! Suc i =
       Multivariate_normal
         (of_int (atom_location d ! i div N p) * of_int (M p) + of_int (M p) / 2,
          of_int (N p * M p)
            - (of_int (atom_location d ! i mod N p) * of_int (M p) + of_int (M p) / 2))
         (std p) (N_photon p) \<and>
     (0 < M p \<longrightarrow> (\<forall>b b'. b < b' \<longrightarrow> y_index p b' < y_index p b))"
proof -
  have c: "(photon_calls p d @ dark_calls p d) ! i =
      Multivariate_normal (centre p (atom_location d ! i)) (std p) (N_photon p)"
    using assms(3) by (simp add: nth_append length_photon_calls) (simp add: photon_calls_def)
  have f: "0 < M p \<longrightarrow> (\<forall>b b'. b < b' \<longrightarrow> y_index p b' < y_index p b)"
    by (simp add: y_index_def)
  show ?thesis
    unfolding synthesize_accepted [OF assms(1,2)]
    using site_marked [OF assms] c f
    by (simp add: centre_def x_index_def y_index_def)
qed

theorem ground_truth_orientation_witness:
  "accepted ex_params \<and> valid_draws ex_params ex_draws \<and> (0::nat) < nat (N_atom ex_params) \<and>
   atom_location ex_draws ! 0 = 2 \<and> (2::int) div N ex_params = 1 \<and> (2::int) mod N ex_params = 0 \<and>
   0 < M ex_params \<and>
   (\<exists>calls im. synthesize ex_params ex_draws = (calls, Inr im) \<and>
      actual_lattice im ! 0 ! 1 = 1 \<and>
      calls ! 1 = Multivariate_normal (9 / 2, 9 / 2) 1 2) \<and>
   y_index ex_params 1 < y_index ex_params 0"
proof -
  have h: "(0::nat) < nat (N_atom ex_params)"
    by (simp add: ex_params_def)
  have v: "atom_location ex_draws ! 0 = 2" "(2::int) div N ex_params = 1"
    "(2::int) mod N ex_params = 0" "0 < M ex_params"
    by (simp_all add: ex_params_def ex_draws_def)
  from ground_truth_orientation [OF ex_accepted ex_valid h] obtain calls im where
    s: "synthesize ex_params ex_draws = (calls, Inr im)" and
    a: "actual_lattice im ! nat (atom_location ex_draws ! 0 mod N ex_params)
          ! nat (atom_location ex_draws ! 0 div N ex_params) = 1" and
    c: "calls ! Suc 0 =
       Multivariate_normal
         (of_int (atom_location ex_draws ! 0 div N ex_params) * of_int (M ex_params)
            + of_int (M ex_params) / 2,
          of_int (N ex_params * M ex_params)
            - (of_int (atom_location ex_draws ! 0 mod N ex_params) * of_int (M ex_params)
               + of_int (M ex_params) / 2))
         (std ex_params) (N_photon ex_params)" and
    f: "0 < M ex_params \<longrightarrow> (\<forall>b b'. b < b' \<longrightarrow> y_index ex_params b' < y_index ex_params b)"
    by blast
  have "actual_lattice im ! 0 ! 1 = 1"
    using a by (simp add: v)
  moreover have "calls ! 1 = Multivariate_normal (9 / 2, 9 / 2) 1 2"
    using c by (simp add: v) (simp add: ex_params_def)
  moreover have "y_index ex_params 1 < y_index ex_params 0"
    using f v(4) by simp
  ultimately show ?thesis
    using ex_accepted ex_valid h v s by blast
qed

subsection \<open>Indices of the rasterization\<close>

text \<open>
  Claim C10. On a square grid the rasterization loop never raises, whatever the
  coordinates of the events: it performs exactly the increments of the events strictly
  inside the frame, each at the cell \<open>[y][x]\<close> itself, where numpy's index resolution is
  the identity (no negative index, no index beyond the axis).
\<close>

theorem rasterize_no_wraparound:
  assumes "is_grid n g"
  shows "rasterize (int n) g evs =
      Inr (fold (\<lambda>(x, y) h. update_cell (\<lambda>v. v + 1) h (nat y) (nat x))
             (filter (\<lambda>(x, y). 0 < x \<and> x < int n \<and> 0 < y \<and> y < int n) evs) g) \<and>
    list_all (\<lambda>(x, y). np_index n y = Inr (nat y) \<and> np_index n x = Inr (nat x) \<and>
                0 < nat y \<and> nat y < n \<and> 0 < nat x \<and> nat x < n)
      (filter (\<lambda>(x, y). 0 < x \<and> x < int n \<and> 0 < y \<and> y < int n) evs)"
proof -
  have "rasterize (int n) g evs =
      Inr (fold (\<lambda>(x, y) h. update_cell (\<lambda>v. v + 1) h (nat y) (nat x))
             (filter (\<lambda>(x, y). 0 < x \<and> x < int n \<and> 0 < y \<and> y < int n) evs) g)"
    using assms
  proof (induction evs arbitrary: g)
    case Nil
    then show ?case by simp
  next
    case (Cons ev evs)
    obtain x y where ev: "ev = (x, y)" by (cases ev)
    show ?case
    proof (cases "0 < x \<and> x < int n \<and> 0 < y \<and> y < int n")
      case True
      have m: "modify_item (\<lambda>v. v + 1) g y x = Inr (update_cell (\<lambda>v. v + 1) g (nat y) (nat x))"
        using True Cons.prems by (intro modify_item_direct) auto
      have "is_grid n (update_cell (\<lambda>v. v + 1) g (nat y) (nat x))"
        using Cons.prems by (rule is_grid_update_cell)
      from Cons.IH [OF this] show ?thesis
        using True m by (simp add: ev)
    next
      case False
      have "\<not> (x < int n \<and> y < int n \<and> x > 0 \<and> y > 0)"
        using False by auto
      then have st: "rasterize (int n) g ((x, y) # evs) = rasterize (int n) g evs"
        by (simp only: rasterize.simps if_False)
      have fl: "filter (\<lambda>(x, y). 0 < x \<and> x < int n \<and> 0 < y \<and> y < int n) ((x, y) # evs) =
          filter (\<lambda>(x, y). 0 < x \<and> x < int n \<and> 0 < y \<and> y < int n) evs"
        using False by simp
      show ?thesis
        unfolding ev st fl by (rule Cons.IH [OF Cons.prems])
    qed
  qed
  moreover have "list_all (\<lambda>(x, y). np_index n y = Inr (nat y) \<and> np_index n x = Inr (nat x) \<and>
                0 < nat y \<and> nat y < n \<and> 0 < nat x \<and> nat x < n)
      (filter (\<lambda>(x, y). 0 < x \<and> x < int n \<and> 0 < y \<and> y < int n) evs)"
    by (auto simp: list_all_iff np_index_def)
  ultimately show ?thesis by blast
qed

theorem rasterize_no_wraparound_witness:
  "is_grid 3 (zeros 3 3) \<and>
   rasterize (int 3) (zeros 3 3) [(- 1, 2), (1, 1), (3, 1), (0, 2), (2, - 3)] =
     Inr [[0, 0, 0], [0, 1, 0], [0, 0, 0]] \<and>
   modify_item (\<lambda>v. v + 1) (zeros 3 3) 2 (- 1) = Inr [[0, 0, 0], [0, 0, 0], [0, 0, 1]]"
proof -
  have g: "is_grid 3 (zeros 3 3)"
    by (rule is_grid_zeros)
  have "rasterize (int 3) (zeros 3 3) [(- 1, 2), (1, 1), (3, 1), (0, 2), (2, - 3)] =
     Inr [[0, 0, 0], [0, 1, 0], [0, 0, 0]]"
    using rasterize_no_wraparound [OF g, of "[(- 1, 2), (1, 1), (3, 1), (0, 2), (2, - 3)]"]
    by (simp add: update_cell_def zeros_def eval_nat_numeral)
  moreover have "modify_item (\<lambda>v. v + 1) (zeros 3 3) 2 (- 1) = Inr [[0, 0, 0], [0, 0, 0], [0, 0, 1]]"
    by (simp add: modify_item_def np_index_def zeros_def eval_nat_numeral)
  ultimately show ?thesis
    using g by blast
qed

end
